theory Spec2Isabelle
  imports Complex_Main "HOL-Library.Stream" "HOL-Library.Multiset"
begin

section \<open>Random mating (randomMating.py)\<close>

text \<open>
  A shallow embedding of \<^verbatim>\<open>src/randomMating.py\<close>. A Python tuple is a list, a
  dict is an association list in insertion order (the order \<^verbatim>\<open>items()\<close> iterates in),
  a raised exception is the left summand of a result. Python's unbounded integers are
  \<open>int\<close>. The floats of the source (\<^verbatim>\<open>random.random() * total\<close> and the quotients
  \<^verbatim>\<open>cnt / total\<close>) are read as exact reals.
\<close>

subsection \<open>Exceptions and the random source\<close>

datatype error = AssertionError | ValueError | IndexError | ZeroDivisionError

text \<open>
  The module-wide generator of \<^verbatim>\<open>random\<close>: \<open>floats\<close> holds the results of the
  successive calls of \<^verbatim>\<open>random.random()\<close>, \<open>picks\<close> the raw index draws of the
  successive calls of \<^verbatim>\<open>random.choice\<close>. Every function that draws returns the
  generator advanced.
\<close>

record rng =
  floats :: "real stream"
  picks :: "nat stream"

definition random_random :: "rng \<Rightarrow> real \<times> rng" where
  "random_random r = (shd (floats r), r\<lparr>floats := stl (floats r)\<rparr>)"

text \<open>\<^verbatim>\<open>random.choice(seq)\<close>: IndexError on an empty sequence, otherwise the element
  at a drawn index below \<^verbatim>\<open>len(seq)\<close>.\<close>

definition random_choice :: "'a list \<Rightarrow> rng \<Rightarrow> error + ('a \<times> rng)" where
  "random_choice seq r =
     (if seq = [] then Inl IndexError
      else Inr (seq ! (shd (picks r) mod length seq), r\<lparr>picks := stl (picks r)\<rparr>))"

text \<open>The draws \<^verbatim>\<open>random.random()\<close> may return: the half-open unit interval.\<close>

definition unit_floats :: "rng \<Rightarrow> bool" where
  "unit_floats r = (\<forall>u \<in> sset (floats r). 0 \<le> u \<and> u < 1)"

subsection \<open>weighted\_choice\<close>

text \<open>The loop \<^verbatim>\<open>for w in weights: total += w; cum_weights.append(total)\<close>, on the
  pair of its two variables.\<close>

fun accumulate :: "int \<Rightarrow> int list \<Rightarrow> int list \<Rightarrow> int \<times> int list" where
  "accumulate tot cum_weights [] = (tot, cum_weights)"
| "accumulate tot cum_weights (w # ws) = accumulate (tot + w) (cum_weights @ [tot + w]) ws"

text \<open>The list \<open>cum_weights\<close> that the loop builds, as a function of the weights: the
  running sums, starting from \<open>t\<close>.\<close>

fun cumsum :: "int \<Rightarrow> int list \<Rightarrow> int list" where
  "cumsum t [] = []"
| "cumsum t (w # ws) = (t + w) # cumsum (t + w) ws"

text \<open>\<^verbatim>\<open>bisect.bisect\<close> of the standard library (bisect\_right): the binary search
  \<^verbatim>\<open>while lo < hi: mid = (lo+hi)//2; if x < a[mid]: hi = mid else: lo = mid+1\<close>.
  Python compares an int with a float by value.\<close>

function bisect_loop :: "int list \<Rightarrow> real \<Rightarrow> nat \<Rightarrow> nat \<Rightarrow> nat" where
  "bisect_loop a x lo hi =
     (if lo < hi
      then (let mid = (lo + hi) div 2
            in if x < real_of_int (a ! mid) then bisect_loop a x lo mid
               else bisect_loop a x (mid + 1) hi)
      else lo)"
  by pat_completeness auto
termination
  by (relation "measure (\<lambda>(a, x, lo, hi). hi - lo)") auto

declare bisect_loop.simps [simp del]

definition bisect :: "int list \<Rightarrow> real \<Rightarrow> nat" where
  "bisect a x = bisect_loop a x 0 (length a)"

text \<open>\<^verbatim>\<open>values, weights = zip(*choices)\<close> cannot unpack when \<open>choices\<close> is empty
  (ValueError); \<^verbatim>\<open>values[i]\<close> raises IndexError when \<open>i\<close> is the length.\<close>

definition weighted_choice :: "('a \<times> int) list \<Rightarrow> rng \<Rightarrow> error + ('a \<times> rng)" where
  "weighted_choice choices r =
     (if choices = [] then Inl ValueError
      else
        let values = map fst choices;
            weights = map snd choices;
            (tot, cum_weights) = accumulate 0 [] weights;
            (u, r') = random_random r;
            x = u * real_of_int tot;
            i = bisect cum_weights x
        in if i < length values then Inr (values ! i, r') else Inl IndexError)"

subsection \<open>Gene\<close>

type_synonym gene = "int list"

text \<open>\<^verbatim>\<open>assert len(alleles), 2\<close> tests the truth of \<^verbatim>\<open>len(alleles)\<close> (the \<open>2\<close> is
  the assertion's message); the alleles are integers by their type; the tuple is
  \<^verbatim>\<open>sorted(alleles)\<close>.\<close>

definition Gene :: "int list \<Rightarrow> error + gene" where
  "Gene alleles = (if length alleles \<noteq> 0 then Inr (sort alleles) else Inl AssertionError)"

text \<open>A dict as an association list: \<^verbatim>\<open>d[k] = v\<close> keeps the position of a key that is
  there and appends a new one.\<close>

fun dict_set :: "('k \<times> 'v) list \<Rightarrow> 'k \<Rightarrow> 'v \<Rightarrow> ('k \<times> 'v) list" where
  "dict_set [] k v = [(k, v)]"
| "dict_set ((k', v') # d) k v = (if k' = k then (k', v) # d else (k', v') # dict_set d k v)"

text \<open>\<^verbatim>\<open>d[k]\<close> of a \<^verbatim>\<open>defaultdict(int)\<close>: 0 for a key that is not there.\<close>

fun dict_get :: "('k \<times> int) list \<Rightarrow> 'k \<Rightarrow> int" where
  "dict_get [] k = 0"
| "dict_get ((k', v') # d) k = (if k' = k then v' else dict_get d k)"

text \<open>\<^verbatim>\<open>d[k] += n\<close> of a \<^verbatim>\<open>defaultdict(int)\<close>.\<close>

definition dict_iadd :: "('k \<times> int) list \<Rightarrow> 'k \<Rightarrow> int \<Rightarrow> ('k \<times> int) list" where
  "dict_iadd d k n = dict_set d k (dict_get d k + n)"

text \<open>\<^verbatim>\<open>{ k:self.count(k) for k in self }\<close>\<close>

definition Gene_allele_count :: "gene \<Rightarrow> (int \<times> int) list" where
  "Gene_allele_count self = fold (\<lambda>k d. dict_set d k (int (count_list self k))) self []"

text \<open>\<^verbatim>\<open>Gene(random.choice(self), random.choice(other))\<close>, the arguments evaluated
  from left to right.\<close>

definition Gene_mate :: "gene \<Rightarrow> gene \<Rightarrow> rng \<Rightarrow> error + (gene \<times> rng)" where
  "Gene_mate self other r =
     (case random_choice self r of
        Inl e \<Rightarrow> Inl e
      | Inr (a, r1) \<Rightarrow>
          (case random_choice other r1 of
             Inl e \<Rightarrow> Inl e
           | Inr (b, r2) \<Rightarrow>
               (case Gene [a, b] of Inl e \<Rightarrow> Inl e | Inr g \<Rightarrow> Inr (g, r2))))"

subsection \<open>Genome\<close>

type_synonym genome = "gene list"

text \<open>\<^verbatim>\<open>[Gene(g[0],g[1]) for g in genotypes]\<close>: a genotype shorter than two raises
  IndexError at \<^verbatim>\<open>g[0]\<close> or \<^verbatim>\<open>g[1]\<close>.\<close>

fun Genome :: "int list list \<Rightarrow> error + genome" where
  "Genome [] = Inr []"
| "Genome (g # genotypes) =
     (if length g < 2 then Inl IndexError
      else (case Gene [g ! 0, g ! 1] of
              Inl e \<Rightarrow> Inl e
            | Inr x \<Rightarrow> (case Genome genotypes of Inl e \<Rightarrow> Inl e | Inr xs \<Rightarrow> Inr (x # xs))))"

text \<open>The tuples that \<open>Genome\<close> builds: two sorted alleles at every locus.\<close>

definition is_Genome :: "genome \<Rightarrow> bool" where
  "is_Genome g = list_all (\<lambda>x. length x = 2 \<and> sorted x) g"

definition Genome_allele_count :: "genome \<Rightarrow> (int \<times> int) list list" where
  "Genome_allele_count self = map Gene_allele_count self"

text \<open>\<^verbatim>\<open>[s.mate(o) for (s,o) in zip(self,other)]\<close>\<close>

fun mate_loci :: "(gene \<times> gene) list \<Rightarrow> rng \<Rightarrow> error + (gene list \<times> rng)" where
  "mate_loci [] r = Inr ([], r)"
| "mate_loci ((s, o') # ps) r =
     (case Gene_mate s o' r of
        Inl e \<Rightarrow> Inl e
      | Inr (g, r1) \<Rightarrow>
          (case mate_loci ps r1 of Inl e \<Rightarrow> Inl e | Inr (gs, r2) \<Rightarrow> Inr (g # gs, r2)))"

text \<open>\<open>other\<close> is a Genome by its type, so \<^verbatim>\<open>assert isinstance(other, Genome)\<close> holds;
  \<^verbatim>\<open>assert len(self) == len(other)\<close> is the first branch.\<close>

definition Genome_mate :: "genome \<Rightarrow> genome \<Rightarrow> rng \<Rightarrow> error + (genome \<times> rng)" where
  "Genome_mate self other r =
     (if length self \<noteq> length other then Inl AssertionError
      else (case mate_loci (zip self other) r of
              Inl e \<Rightarrow> Inl e
            | Inr (gs, r') \<Rightarrow> (case Genome gs of Inl e \<Rightarrow> Inl e | Inr g \<Rightarrow> Inr (g, r'))))"

subsection \<open>Species\<close>

type_synonym species = "(genome \<times> int) list"

text \<open>A key handed to the constructor: a Genome, or any other hashable object.\<close>

datatype 'a pyobj = GenomeObj genome | OtherObj 'a

fun isinstance_Genome :: "'a pyobj \<Rightarrow> bool" where
  "isinstance_Genome (GenomeObj g) = True"
| "isinstance_Genome (OtherObj x) = False"

fun the_Genome :: "'a pyobj \<Rightarrow> genome" where
  "the_Genome (GenomeObj g) = g"
| "the_Genome (OtherObj x) = []"

text \<open>\<^verbatim>\<open>assert all(isinstance(g, Genome) for g in genome_dict)\<close>, then the items are
  copied into the new \<^verbatim>\<open>defaultdict(int)\<close>. Nothing else is checked.\<close>

definition Species :: "('a pyobj \<times> int) list \<Rightarrow> error + species" where
  "Species genome_dict =
     (if list_all (\<lambda>(g, n). isinstance_Genome g) genome_dict
      then Inr (map (\<lambda>(g, n). (the_Genome g, n)) genome_dict)
      else Inl AssertionError)"

definition population :: "species \<Rightarrow> int" where
  "population self = sum_list (map snd self)"

text \<open>Python's true division of floats.\<close>

definition truediv :: "real \<Rightarrow> real \<Rightarrow> error + real" where
  "truediv a b = (if b = 0 then Inl ZeroDivisionError else Inr (a / b))"

text \<open>\<^verbatim>\<open>{ k:cnt/total for k,cnt in items }\<close>: the quotients are taken item by item.\<close>

fun frequencies :: "('k \<times> int) list \<Rightarrow> real \<Rightarrow> error + ('k \<times> real) list" where
  "frequencies [] tot = Inr []"
| "frequencies ((k, cnt) # items) tot =
     (case truediv (real_of_int cnt) tot of
        Inl e \<Rightarrow> Inl e
      | Inr q \<Rightarrow> (case frequencies items tot of Inl e \<Rightarrow> Inl e | Inr fs \<Rightarrow> Inr ((k, q) # fs)))"

definition genome_frequencies :: "species \<Rightarrow> error + (genome \<times> real) list" where
  "genome_frequencies self = frequencies self (real_of_int (sum_list (map snd self)))"

text \<open>Python's indexing of a list by an integer: a negative index counts from the end.\<close>

definition getitem :: "'a list \<Rightarrow> int \<Rightarrow> error + 'a" where
  "getitem xs i =
     (let n = int (length xs); j = (if i < 0 then n + i else i)
      in if 0 \<le> j \<and> j < n then Inr (xs ! nat j) else Inl IndexError)"

text \<open>\<^verbatim>\<open>{g:g.allele_count()[locus] for g in self}\<close>\<close>

fun alleles_by_genome :: "species \<Rightarrow> int \<Rightarrow> error + (genome \<times> (int \<times> int) list) list" where
  "alleles_by_genome [] locus = Inr []"
| "alleles_by_genome ((g, n) # items) locus =
     (case getitem (Genome_allele_count g) locus of
        Inl e \<Rightarrow> Inl e
      | Inr ac \<Rightarrow>
          (case alleles_by_genome items locus of
             Inl e \<Rightarrow> Inl e
           | Inr abg \<Rightarrow> Inr ((g, ac) # abg)))"

text \<open>The two nested loops of \<open>allele_counts\<close>:
  \<^verbatim>\<open>allele_sum[allele] += alleles_by_genome[g][allele] * self[g]\<close>.\<close>

definition allele_counts :: "species \<Rightarrow> int \<Rightarrow> error + (int \<times> int) list" where
  "allele_counts self locus =
     (case alleles_by_genome self locus of
        Inl e \<Rightarrow> Inl e
      | Inr abg \<Rightarrow>
          Inr (fold (\<lambda>(g, ac) allele_sum.
                       fold (\<lambda>(allele, c) allele_sum. dict_iadd allele_sum allele (c * dict_get self g))
                            ac allele_sum)
                    abg []))"

definition allele_frequencies :: "species \<Rightarrow> int \<Rightarrow> error + (int \<times> real) list" where
  "allele_frequencies self locus =
     (case allele_counts self locus of
        Inl e \<Rightarrow> Inl e
      | Inr ac \<Rightarrow> frequencies ac (real_of_int (sum_list (map snd ac))))"

text \<open>One round of the loop of \<open>mate\<close>, on the working copy \<open>s\<close> and the live
  population \<open>self\<close>.\<close>

definition mate_round :: "species \<Rightarrow> species \<Rightarrow> rng \<Rightarrow> error + (species \<times> species \<times> rng)" where
  "mate_round s self r =
     (case weighted_choice s r of
        Inl e \<Rightarrow> Inl e
      | Inr (g1, r1) \<Rightarrow>
          (let s1 = dict_iadd s g1 (- 1) in
           case weighted_choice s1 r1 of
             Inl e \<Rightarrow> Inl e
           | Inr (g2, r2) \<Rightarrow>
               (let s2 = dict_iadd s1 g2 (- 1) in
                case Genome_mate g1 g2 r2 of
                  Inl e \<Rightarrow> Inl e
                | Inr (offspring, r3) \<Rightarrow> Inr (s2, dict_iadd self offspring 1, r3))))"

subsection \<open>The cumulative weights and the binary search\<close>

lemma accumulate_cumsum: "accumulate t c ws = (t + sum_list ws, c @ cumsum t ws)"
  by (induction ws arbitrary: t c) (auto simp: algebra_simps)

lemma length_cumsum [simp]: "length (cumsum t ws) = length ws"
  by (induction ws arbitrary: t) auto

lemma cumsum_nth: "i < length ws \<Longrightarrow> cumsum t ws ! i = t + sum_list (take (Suc i) ws)"
proof (induction ws arbitrary: t i)
  case Nil
  then show ?case by simp
next
  case (Cons w ws)
  then show ?case by (cases i) (auto simp: algebra_simps)
qed

lemma bisect_loop_bounds:
  assumes "lo \<le> hi" "hi \<le> length a"
    and "lo = 0 \<or> real_of_int (a ! (lo - 1)) \<le> x"
    and "hi = length a \<or> x < real_of_int (a ! hi)"
  shows "lo \<le> bisect_loop a x lo hi \<and> bisect_loop a x lo hi \<le> hi
       \<and> (bisect_loop a x lo hi = 0 \<or> real_of_int (a ! (bisect_loop a x lo hi - 1)) \<le> x)
       \<and> (bisect_loop a x lo hi = length a \<or> x < real_of_int (a ! bisect_loop a x lo hi))"
  using assms
proof (induction a x lo hi rule: bisect_loop.induct)
  case (1 a x lo hi)
  show ?case
  proof (cases "lo < hi")
    case False
    then have "bisect_loop a x lo hi = lo" by (subst bisect_loop.simps) simp
    with "1.prems" False show ?thesis by auto
  next
    case True
    define mid where "mid = (lo + hi) div 2"
    have mid: "lo \<le> mid" "mid < hi" using True by (auto simp: mid_def)
    show ?thesis
    proof (cases "x < real_of_int (a ! mid)")
      case lt: True
      have eq: "bisect_loop a x lo hi = bisect_loop a x lo mid"
        using True lt by (subst bisect_loop.simps) (simp add: mid_def Let_def)
      have "lo \<le> bisect_loop a x lo mid \<and> bisect_loop a x lo mid \<le> mid
       \<and> (bisect_loop a x lo mid = 0 \<or> real_of_int (a ! (bisect_loop a x lo mid - 1)) \<le> x)
       \<and> (bisect_loop a x lo mid = length a \<or> x < real_of_int (a ! bisect_loop a x lo mid))"
        using "1.IH"(1)[OF True mid_def lt] mid "1.prems" lt by auto
      with mid eq show ?thesis by auto
    next
      case ge: False
      have eq: "bisect_loop a x lo hi = bisect_loop a x (mid + 1) hi"
        using True ge by (subst bisect_loop.simps) (simp add: mid_def Let_def)
      have "mid + 1 \<le> bisect_loop a x (mid + 1) hi \<and> bisect_loop a x (mid + 1) hi \<le> hi
       \<and> (bisect_loop a x (mid + 1) hi = 0 \<or> real_of_int (a ! (bisect_loop a x (mid + 1) hi - 1)) \<le> x)
       \<and> (bisect_loop a x (mid + 1) hi = length a \<or> x < real_of_int (a ! bisect_loop a x (mid + 1) hi))"
        using "1.IH"(2)[OF True mid_def ge] mid "1.prems" ge by auto
      with mid eq show ?thesis by auto
    qed
  qed
qed

lemma bisect_bounds:
  "bisect a x \<le> length a
   \<and> (bisect a x = 0 \<or> real_of_int (a ! (bisect a x - 1)) \<le> x)
   \<and> (bisect a x = length a \<or> x < real_of_int (a ! bisect a x))"
  using bisect_loop_bounds[of 0 "length a" a x] by (simp add: bisect_def)

lemma weighted_choice_eq:
  "cs \<noteq> [] \<Longrightarrow> weighted_choice cs r =
     (let i = bisect (cumsum 0 (map snd cs)) (shd (floats r) * real_of_int (sum_list (map snd cs)))
      in if i < length cs then Inr (fst (cs ! i), r\<lparr>floats := stl (floats r)\<rparr>) else Inl IndexError)"
  by (simp add: weighted_choice_def Let_def accumulate_cumsum random_random_def)

lemma cumsum_last: "ws \<noteq> [] \<Longrightarrow> cumsum t ws ! (length ws - 1) = t + sum_list ws"
  by (simp add: cumsum_nth)

lemma weighted_choice_pos:
  assumes pos: "0 < sum_list (map snd cs)" and u: "0 \<le> shd (floats r)" "shd (floats r) < 1"
  shows "\<exists>i<length cs. weighted_choice cs r = Inr (fst (cs ! i), r\<lparr>floats := stl (floats r)\<rparr>)
           \<and> shd (floats r) * real_of_int (sum_list (map snd cs)) < real_of_int (sum_list (take (Suc i) (map snd cs)))
           \<and> (i = 0 \<or> real_of_int (sum_list (take i (map snd cs))) \<le> shd (floats r) * real_of_int (sum_list (map snd cs)))"
proof -
  define ws where "ws = map snd cs"
  define x where "x = shd (floats r) * real_of_int (sum_list ws)"
  define a where "a = cumsum 0 ws"
  define i where "i = bisect a x"
  have ne: "cs \<noteq> []" using pos by auto
  have len: "length a = length cs" "length ws = length cs" by (simp_all add: a_def ws_def)
  have xlt: "x < real_of_int (sum_list ws)"
    using pos u unfolding x_def ws_def by (simp add: mult_less_cancel_right1)
  have b: "i \<le> length a" "i = 0 \<or> real_of_int (a ! (i - 1)) \<le> x" "i = length a \<or> x < real_of_int (a ! i)"
    using bisect_bounds[of a x] by (simp_all add: i_def)
  have "i \<noteq> length a"
  proof
    assume e: "i = length a"
    with ne len have "i \<noteq> 0" by simp
    with b e have "real_of_int (a ! (length ws - 1)) \<le> x" by (simp add: len)
    moreover have "a ! (length ws - 1) = sum_list ws"
      using ne cumsum_last[of ws 0] by (simp add: a_def ws_def)
    ultimately show False using xlt by simp
  qed
  with b have lt: "i < length cs" and xi: "x < real_of_int (a ! i)" by (auto simp: len)
  have ai: "a ! i = sum_list (take (Suc i) ws)" using lt by (simp add: a_def cumsum_nth len)
  have prev: "i = 0 \<or> real_of_int (sum_list (take i ws)) \<le> x"
  proof (cases "i = 0")
    case False
    then have "i - 1 < length ws" "Suc (i - 1) = i" using lt len by auto
    then have "a ! (i - 1) = sum_list (take i ws)" using cumsum_nth[of "i - 1" ws 0] by (simp add: a_def)
    with b False show ?thesis by simp
  qed simp
  have "weighted_choice cs r = Inr (fst (cs ! i), r\<lparr>floats := stl (floats r)\<rparr>)"
    using ne lt by (simp add: weighted_choice_eq Let_def i_def a_def x_def ws_def)
  with lt xi ai prev show ?thesis unfolding x_def ws_def by auto
qed

lemma sum_list_take_mono:
  assumes "\<forall>w \<in> set ws. (0::int) \<le> w" "j \<le> k"
  shows "sum_list (take j ws) \<le> sum_list (take k ws)"
proof -
  have "take k ws = take j ws @ take (k - j) (drop j ws)"
    using assms(2) by (metis le_add_diff_inverse take_add)
  moreover have "0 \<le> sum_list (take (k - j) (drop j ws))"
    using assms(1) by (intro sum_list_nonneg) (auto dest: in_set_takeD in_set_dropD)
  ultimately show ?thesis by simp
qed

lemma sum_list_all_zero: "\<forall>w \<in> set ws. w = (0::int) \<Longrightarrow> sum_list ws = 0"
  by (induction ws) auto

lemma cumsum_zero: "\<forall>w \<in> set ws. w = 0 \<Longrightarrow> i < length ws \<Longrightarrow> cumsum 0 ws ! i = 0"
  by (auto simp: cumsum_nth intro!: sum_list_all_zero dest: in_set_takeD)

lemma weighted_choice_zero:
  assumes ne: "cs \<noteq> []" and z: "\<forall>w \<in> set (map snd cs). w = 0"
  shows "weighted_choice cs r = Inl IndexError"
proof -
  define a where "a = cumsum 0 (map snd cs)"
  have s: "sum_list (map snd cs) = 0" using z by (intro sum_list_all_zero) simp
  have b: "bisect a 0 = length a \<or> 0 < real_of_int (a ! bisect a 0)" "bisect a 0 \<le> length a"
    using bisect_bounds[of a 0] by simp_all
  have "bisect a 0 = length a"
  proof (rule ccontr)
    assume n: "bisect a 0 \<noteq> length a"
    with b have "bisect a 0 < length (map snd cs)" by (simp add: a_def)
    then have "a ! bisect a 0 = 0" unfolding a_def using z cumsum_zero by blast
    with b n show False by simp
  qed
  then show ?thesis using ne by (simp add: weighted_choice_eq Let_def s a_def)
qed

lemma sort2: "sort [a, b :: int] = (if a \<le> b then [a, b] else [b, a])"
  by (simp add: sort_key_def)

lemma length2: "length g = 2 \<longleftrightarrow> (\<exists>a b. g = [a, b])"
  by (cases g; cases "tl g") auto

lemma Gene_pair: "Gene [a, b] = Inr (sort [a, b])"
  by (simp add: Gene_def)

lemma Gene_mate_nonempty:
  "s \<noteq> [] \<Longrightarrow> t \<noteq> [] \<Longrightarrow>
   Gene_mate s t r = Inr (sort [s ! (shd (picks r) mod length s), t ! (shd (stl (picks r)) mod length t)],
                          r\<lparr>picks := stl (stl (picks r))\<rparr>)"
  by (simp add: Gene_mate_def random_choice_def Gene_def)

lemma Genome_id: "is_Genome gs \<Longrightarrow> Genome gs = Inr gs"
proof (induction gs)
  case Nil
  then show ?case by simp
next
  case (Cons g gs)
  then obtain a b where "g = [a, b]" "a \<le> b" by (auto simp: is_Genome_def length2)
  with Cons show ?case by (simp add: is_Genome_def Gene_def sort2)
qed

lemma Genome_is_Genome: "Genome ps = Inr g \<Longrightarrow> is_Genome g \<and> length g = length ps"
proof (induction ps arbitrary: g)
  case Nil
  then show ?case by (simp add: is_Genome_def)
next
  case (Cons p ps)
  then show ?case
    by (auto simp: is_Genome_def Gene_def sort2 split: if_splits sum.splits)
qed

lemma mate_loci_ok:
  assumes "\<forall>(s, t) \<in> set ps. s \<noteq> [] \<and> t \<noteq> []"
  shows "\<exists>gs. mate_loci ps r = Inr (gs, r\<lparr>picks := sdrop (2 * length ps) (picks r)\<rparr>)
           \<and> length gs = length ps \<and> is_Genome gs
           \<and> (\<forall>i<length ps. Gene_mate (fst (ps ! i)) (snd (ps ! i)) (r\<lparr>picks := sdrop (2 * i) (picks r)\<rparr>)
                 = Inr (gs ! i, r\<lparr>picks := sdrop (2 * i + 2) (picks r)\<rparr>))"
  using assms
proof (induction ps arbitrary: r)
  case Nil
  then show ?case by (simp add: is_Genome_def)
next
  case (Cons p ps)
  obtain s t where p: "p = (s, t)" by (cases p)
  with Cons.prems have ne: "s \<noteq> []" "t \<noteq> []" by auto
  define g where "g = sort [s ! (shd (picks r) mod length s), t ! (shd (stl (picks r)) mod length t)]"
  define r1 where "r1 = r\<lparr>picks := stl (stl (picks r))\<rparr>"
  have gm: "Gene_mate s t r = Inr (g, r1)"
    using ne by (simp add: Gene_mate_nonempty g_def r1_def)
  have gok: "length g = 2 \<and> sorted g" by (simp add: g_def sort2)
  from Cons.IH[of r1] Cons.prems obtain gs where
    gs: "mate_loci ps r1 = Inr (gs, r1\<lparr>picks := sdrop (2 * length ps) (picks r1)\<rparr>)"
        "length gs = length ps" "is_Genome gs"
        "\<forall>i<length ps. Gene_mate (fst (ps ! i)) (snd (ps ! i)) (r1\<lparr>picks := sdrop (2 * i) (picks r1)\<rparr>)
                 = Inr (gs ! i, r1\<lparr>picks := sdrop (2 * i + 2) (picks r1)\<rparr>)"
    by auto
  have 1: "mate_loci (p # ps) r = Inr (g # gs, r\<lparr>picks := sdrop (2 * length (p # ps)) (picks r)\<rparr>)"
    using gm gs(1) by (simp add: p r1_def)
  have 2: "is_Genome (g # gs)" using gok gs(3) by (simp add: is_Genome_def)
  have 3: "Gene_mate (fst ((p # ps) ! i)) (snd ((p # ps) ! i)) (r\<lparr>picks := sdrop (2 * i) (picks r)\<rparr>)
                 = Inr ((g # gs) ! i, r\<lparr>picks := sdrop (2 * i + 2) (picks r)\<rparr>)"
    if "i < length (p # ps)" for i
  proof (cases i)
    case 0
    then show ?thesis using gm by (simp add: p r1_def)
  next
    case (Suc j)
    with that have "j < length ps" by simp
    with gs(4) have "Gene_mate (fst (ps ! j)) (snd (ps ! j)) (r1\<lparr>picks := sdrop (2 * j) (picks r1)\<rparr>)
                 = Inr (gs ! j, r1\<lparr>picks := sdrop (2 * j + 2) (picks r1)\<rparr>)" by blast
    then show ?thesis by (simp add: Suc r1_def)
  qed
  from 1 2 3 gs(2) show ?case by auto
qed

lemma Genome_mate_ok:
  assumes "is_Genome self" "is_Genome other" "length self = length other"
  shows "\<exists>g. Genome_mate self other r = Inr (g, r\<lparr>picks := sdrop (2 * length self) (picks r)\<rparr>)
           \<and> length g = length self \<and> is_Genome g
           \<and> (\<forall>i<length self. Gene_mate (self ! i) (other ! i) (r\<lparr>picks := sdrop (2 * i) (picks r)\<rparr>)
                 = Inr (g ! i, r\<lparr>picks := sdrop (2 * i + 2) (picks r)\<rparr>))"
proof -
  have "\<forall>(s, t) \<in> set (zip self other). s \<noteq> [] \<and> t \<noteq> []"
  proof (clarify, rule conjI)
    fix s t assume st: "(s, t) \<in> set (zip self other)"
    from st have "s \<in> set self" by (rule set_zip_leftD)
    with assms(1) have "length s = 2" by (simp add: is_Genome_def list_all_iff)
    then show "s \<noteq> []" by auto
    from st have "t \<in> set other" by (rule set_zip_rightD)
    with assms(2) have "length t = 2" by (simp add: is_Genome_def list_all_iff)
    then show "t \<noteq> []" by auto
  qed
  from mate_loci_ok[OF this, of r] obtain gs where
    gs: "mate_loci (zip self other) r = Inr (gs, r\<lparr>picks := sdrop (2 * length (zip self other)) (picks r)\<rparr>)"
        "length gs = length (zip self other)" "is_Genome gs"
        "\<forall>i<length (zip self other). Gene_mate (fst (zip self other ! i)) (snd (zip self other ! i)) (r\<lparr>picks := sdrop (2 * i) (picks r)\<rparr>)
                 = Inr (gs ! i, r\<lparr>picks := sdrop (2 * i + 2) (picks r)\<rparr>)"
    by auto
  have "Genome_mate self other r = Inr (gs, r\<lparr>picks := sdrop (2 * length self) (picks r)\<rparr>)"
    using gs(1,3) assms(3) by (simp add: Genome_mate_def Genome_id)
  moreover have "\<forall>i<length self. Gene_mate (self ! i) (other ! i) (r\<lparr>picks := sdrop (2 * i) (picks r)\<rparr>)
                 = Inr (gs ! i, r\<lparr>picks := sdrop (2 * i + 2) (picks r)\<rparr>)"
    using gs(4) assms(3) by simp
  ultimately show ?thesis using gs(2,3) assms(3) by auto
qed

subsection \<open>Species.mate\<close>

lemma population_dict_iadd: "population (dict_iadd d k n) = population d + n"
  unfolding population_def dict_iadd_def by (induction d) auto

lemma keys_dict_set: "fst ` set (dict_set d k v) = insert k (fst ` set d)"
proof (induction d)
  case Nil
  show ?case by simp
next
  case (Cons p d)
  obtain a b where p: "p = (a, b)" by (cases p)
  show ?case
  proof (cases "a = k")
    case True
    then show ?thesis by (simp add: p)
  next
    case False
    then show ?thesis using Cons.IH by (simp add: p insert_commute)
  qed
qed

lemma keys_dict_iadd: "fst ` set (dict_iadd d k n) = insert k (fst ` set d)"
  by (simp add: dict_iadd_def keys_dict_set)

lemma dict_get_dict_set: "dict_get (dict_set d k v) g = (if g = k then v else dict_get d g)"
  by (induction d) auto

lemma dict_get_dict_iadd: "dict_get (dict_iadd d k n) g = dict_get d g + (if g = k then n else 0)"
  by (simp add: dict_iadd_def dict_get_dict_set)

lemma unit_floats_shd: "unit_floats r \<Longrightarrow> 0 \<le> shd (floats r) \<and> shd (floats r) < 1"
  by (simp add: unit_floats_def shd_sset)

lemma unit_floats_stl: "unit_floats r \<Longrightarrow> unit_floats (r\<lparr>floats := stl (floats r)\<rparr>)"
  by (auto simp: unit_floats_def dest: stl_sset)

lemma unit_floats_picks [simp]: "unit_floats (r\<lparr>picks := p\<rparr>) = unit_floats r"
  by (simp add: unit_floats_def)

lemma mate_round_population:
  "mate_round s self r = Inr (s', self', r') \<Longrightarrow> population s' = population s - 2"
  by (auto simp: mate_round_def Let_def population_dict_iadd split: sum.splits prod.splits)

lemma weighted_choice_key:
  assumes "0 < population s" "unit_floats r"
  shows "\<exists>g \<in> fst ` set s. weighted_choice s r = Inr (g, r\<lparr>floats := stl (floats r)\<rparr>)"
proof -
  from assms(1) have "0 < sum_list (map snd s)" by (simp add: population_def)
  from weighted_choice_pos [OF this] unit_floats_shd [OF assms(2)]
  obtain i where "i < length s" "weighted_choice s r = Inr (fst (s ! i), r\<lparr>floats := stl (floats r)\<rparr>)"
    by blast
  then show ?thesis by auto
qed

lemma mate_round_ok:
  assumes keys: "\<forall>g \<in> fst ` set s. is_Genome g \<and> length g = L"
    and pop: "2 \<le> population s" and u: "unit_floats r"
  shows "\<exists>s' off r'. mate_round s self r = Inr (s', dict_iadd self off 1, r')
           \<and> fst ` set s' = fst ` set s \<and> unit_floats r'"
proof -
  define r1 where "r1 = r\<lparr>floats := stl (floats r)\<rparr>"
  from pop have "0 < population s" by simp
  from weighted_choice_key [OF this u] obtain g1 where
    g1: "g1 \<in> fst ` set s" "weighted_choice s r = Inr (g1, r1)" by (auto simp: r1_def)
  define s1 where "s1 = dict_iadd s g1 (- 1)"
  have k1: "fst ` set s1 = fst ` set s" using g1(1) by (auto simp: s1_def keys_dict_iadd)
  have "0 < population s1" using pop by (simp add: s1_def population_dict_iadd)
  moreover have u1: "unit_floats r1" using u by (simp add: r1_def unit_floats_stl)
  ultimately obtain g2 where
    g2: "g2 \<in> fst ` set s1" "weighted_choice s1 r1 = Inr (g2, r1\<lparr>floats := stl (floats r1)\<rparr>)"
    using weighted_choice_key by blast
  define r2 where "r2 = r1\<lparr>floats := stl (floats r1)\<rparr>"
  have u2: "unit_floats r2" using u1 by (simp add: r2_def unit_floats_stl)
  define s2 where "s2 = dict_iadd s1 g2 (- 1)"
  have k2: "fst ` set s2 = fst ` set s" using g2(1) k1 by (auto simp: s2_def keys_dict_iadd)
  have "is_Genome g1 \<and> length g1 = L" using keys g1(1) by blast
  moreover have "is_Genome g2 \<and> length g2 = L" using keys g2(1) k1 by blast
  ultimately have "is_Genome g1" "is_Genome g2" "length g1 = length g2" by simp_all
  from Genome_mate_ok [OF this, of r2] obtain off where
    off: "Genome_mate g1 g2 r2 = Inr (off, r2\<lparr>picks := sdrop (2 * length g1) (picks r2)\<rparr>)"
    by blast
  have "mate_round s self r
          = Inr (s2, dict_iadd self off 1, r2\<lparr>picks := sdrop (2 * length g1) (picks r2)\<rparr>)"
    using g1(2) g2(2) off by (simp add: mate_round_def s1_def s2_def r2_def)
  with k2 u2 show ?thesis by auto
qed

text \<open>The loop \<^verbatim>\<open>while s.population() >= 2\<close> of \<open>mate\<close>. Every round takes two
  individuals from the working copy, so the loop ends.\<close>

function mate_loop :: "species \<Rightarrow> species \<Rightarrow> rng \<Rightarrow> error + (species \<times> rng)" where
  "mate_loop s self r =
     (if 2 \<le> population s
      then (case mate_round s self r of
              Inl e \<Rightarrow> Inl e
            | Inr (s', self', r') \<Rightarrow> mate_loop s' self' r')
      else Inr (self, r))"
  by pat_completeness auto
termination
  by (relation "measure (\<lambda>(s, self, r). nat (population s))")
     (auto dest: mate_round_population)

declare mate_loop.simps [simp del]

text \<open>\<open>mate\<close>: the working copy is \<^verbatim>\<open>Species(self)\<close>, built by the constructor from
  the live population; the live population is returned as the loop leaves it.\<close>

definition Species_mate :: "species \<Rightarrow> rng \<Rightarrow> error + (species \<times> rng)" where
  "Species_mate self r =
     (case Species (map (\<lambda>(g, n). (GenomeObj g :: unit pyobj, n)) self) of
        Inl e \<Rightarrow> Inl e
      | Inr s \<Rightarrow> mate_loop s self r)"

lemma Species_copy: "Species (map (\<lambda>(g, n). (GenomeObj g, n)) sp) = Inr sp"
proof -
  have m: "map (\<lambda>(g, n). (the_Genome g, n)) (map (\<lambda>(g, n). (GenomeObj g, n)) sp) = sp"
    by (induction sp) auto
  have l: "list_all (\<lambda>(g, n). isinstance_Genome g) (map (\<lambda>(g, n). (GenomeObj g, n)) sp)"
    by (induction sp) auto
  show ?thesis unfolding Species_def by (simp only: l m if_True)
qed

lemma Species_mate_eq: "Species_mate self r = mate_loop self self r"
  by (simp add: Species_mate_def Species_copy)

lemma mate_loop_ok:
  assumes "\<forall>g \<in> fst ` set s. is_Genome g \<and> length g = L" and "unit_floats r"
  shows "\<exists>self' r'. mate_loop s self r = Inr (self', r')
           \<and> population self' = population self + (if 2 \<le> population s then population s div 2 else 0)
           \<and> (\<forall>g. dict_get self g \<le> dict_get self' g)
           \<and> fst ` set self \<subseteq> fst ` set self'"
  using assms
proof (induction s self r rule: mate_loop.induct)
  case (1 s self r)
  show ?case
  proof (cases "2 \<le> population s")
    case False
    then have "mate_loop s self r = Inr (self, r)" by (subst mate_loop.simps) simp
    with False show ?thesis by simp
  next
    case True
    from mate_round_ok [OF "1.prems"(1) True "1.prems"(2), of self] obtain s' off r' where
      round: "mate_round s self r = Inr (s', dict_iadd self off 1, r')"
      and k: "fst ` set s' = fst ` set s" and u: "unit_floats r'" by blast
    have loop: "mate_loop s self r = mate_loop s' (dict_iadd self off 1) r'"
      using True round by (subst mate_loop.simps) simp
    have pop: "population s' = population s - 2" using round by (rule mate_round_population)
    have keys': "\<forall>g \<in> fst ` set s'. is_Genome g \<and> length g = L" using "1.prems"(1) k by simp
    from "1.IH" [OF True round refl refl keys' u] obtain self' r'' where
      ih: "mate_loop s' (dict_iadd self off 1) r' = Inr (self', r'')"
          "population self' = population (dict_iadd self off 1)
              + (if 2 \<le> population s' then population s' div 2 else 0)"
          "\<forall>g. dict_get (dict_iadd self off 1) g \<le> dict_get self' g"
          "fst ` set (dict_iadd self off 1) \<subseteq> fst ` set self'"
      by blast
    have p: "population self' = population self + population s div 2"
      using ih(2) pop True by (auto simp: population_dict_iadd)
    have c: "dict_get self g \<le> dict_get self' g" for g
      using ih(3) [rule_format, of g] by (simp add: dict_get_dict_iadd split: if_splits)
    have d: "fst ` set self \<subseteq> fst ` set self'"
      using ih(4) by (auto simp: keys_dict_iadd)
    from loop ih(1) p c d True show ?thesis by simp
  qed
qed

subsection \<open>The Gene constructor\<close>

text \<open>
  C10. The constructor does not enforce two alleles: for every non-empty sequence of
  integers, of any length, \<open>Gene\<close> succeeds and returns the sorted tuple of all the
  alleles supplied (sorted, the same multiset, the same length); only the empty argument
  list fails, with the AssertionError of \<^verbatim>\<open>assert len(alleles), 2\<close>.
\<close>

theorem Gene_any_arity:
  "(alleles \<noteq> [] \<longrightarrow>
      (\<exists>g. Gene alleles = Inr g \<and> g = sort alleles \<and> sorted g \<and> mset g = mset alleles
           \<and> length g = length alleles))
   \<and> Gene [] = Inl AssertionError"
  by (simp add: Gene_def)

theorem Gene_any_arity_witness:
  "[3, 1, 2 :: int] \<noteq> [] \<and> Gene [3, 1, 2] = Inr [1, 2, 3] \<and> Gene [7] = Inr [7]"
  using Gene_any_arity [of "[3, 1, 2]"] Gene_any_arity [of "[7]"] by (simp add: sort_key_def)

text \<open>
  C5. For all integers \<open>x\<close> and \<open>y\<close>, \<open>Gene(x,y)\<close> and \<open>Gene(y,x)\<close> are both
  built and are the same tuple: the two alleles sorted, that is the pair of the smaller
  and the larger of \<open>x\<close> and \<open>y\<close>, holding exactly the alleles \<open>x\<close> and \<open>y\<close>. So
  the two are equal, and they hash identically: \<open>Gene\<close> inherits \<^verbatim>\<open>__eq__\<close> and
  \<^verbatim>\<open>__hash__\<close> from \<^verbatim>\<open>tuple\<close>, so its hash is a function \<open>tuple_hash\<close> of the
  tuple of alleles, whichever function that is.
\<close>

theorem Gene_canonical:
  "\<exists>g1 g2. Gene [x, y] = Inr g1 \<and> Gene [y, x] = Inr g2 \<and> g1 = g2
      \<and> g1 = [min x y, max x y] \<and> sorted g1 \<and> mset g1 = {#x, y#}
      \<and> tuple_hash g1 = tuple_hash g2"
  by (auto simp: Gene_def sort2 min_def max_def)

lemma nth2: "[a, b] ! (k mod Suc (Suc 0)) = (if even k then a else b)"
proof -
  have "k mod 2 = (if even k then 0 else 1)" by (simp add: odd_iff_mod_2_eq_one)
  then show ?thesis by (simp add: numeral_2_eq_2 [symmetric] del: One_nat_def) 
qed

text \<open>
  C6. For genes \<open>g = Gene(a1,a2)\<close> and \<open>h = Gene(a3,a4)\<close> and every state of the
  random source, \<open>g.mate(h)\<close> returns one of \<open>Gene(a1,a3)\<close>, \<open>Gene(a1,a4)\<close>,
  \<open>Gene(a2,a3)\<close>, \<open>Gene(a2,a4)\<close>, having consumed two index draws. The four
  combinations of the two slot choices \<open>(i, j)\<close> with \<open>i, j \<in> {0, 1}\<close> give exactly
  these four genes, one each (as a multiset, so coinciding alleles collapse outcomes but
  keep their share): with uniform and independent slot choices each combination has
  probability 1/4. \<open>Gene(1,1).mate(Gene(2,2))\<close> is always \<open>Gene(1,2)\<close>.
\<close>

theorem Gene_mate_outcomes:
  assumes "Gene [a1, a2] = Inr g" and "Gene [a3, a4] = Inr h"
  shows "(\<exists>c. Gene_mate g h r = Inr (c, r\<lparr>picks := stl (stl (picks r))\<rparr>)
              \<and> Inr c \<in> {Gene [a1, a3], Gene [a1, a4], Gene [a2, a3], Gene [a2, a4]})
       \<and> mset (map (\<lambda>(i, j). map_sum id fst (Gene_mate g h (r\<lparr>picks := i ## j ## picks r\<rparr>)))
                 [(0, 0), (0, 1), (1, 0), (1, 1)])
          = mset [Gene [a1, a3], Gene [a1, a4], Gene [a2, a3], Gene [a2, a4]]
       \<and> Gene_mate [1, 1] [2, 2] r = Inr ([1, 2], r\<lparr>picks := stl (stl (picks r))\<rparr>)"
proof -
  have g: "g = (if a1 \<le> a2 then [a1, a2] else [a2, a1])"
   and h: "h = (if a3 \<le> a4 then [a3, a4] else [a4, a3])"
    using assms by (auto simp: Gene_def sort2)
  have len: "length g = 2" "length h = 2" "g \<noteq> []" "h \<noteq> []"
    by (auto simp: g h)
  define x where "x = g ! (shd (picks r) mod length g)"
  define y where "y = h ! (shd (stl (picks r)) mod length h)"
  have "x \<in> set g" "y \<in> set h" unfolding x_def y_def using len by simp_all
  then have xy: "x = a1 \<or> x = a2" "y = a3 \<or> y = a4" by (auto simp: g h split: if_splits)
  have "Gene_mate g h r = Inr (sort [x, y], r\<lparr>picks := stl (stl (picks r))\<rparr>)"
    using len by (simp add: Gene_mate_nonempty x_def y_def)
  moreover have "Inr (sort [x, y]) \<in> {Gene [a1, a3], Gene [a1, a4], Gene [a2, a3], Gene [a2, a4]}"
    using xy by (auto simp: Gene_pair)
  ultimately have 1: "\<exists>c. Gene_mate g h r = Inr (c, r\<lparr>picks := stl (stl (picks r))\<rparr>)
              \<and> Inr c \<in> {Gene [a1, a3], Gene [a1, a4], Gene [a2, a3], Gene [a2, a4]}"
    by blast
  have slots: "map (\<lambda>(i, j). map_sum id fst (Gene_mate g h (r\<lparr>picks := i ## j ## picks r\<rparr>)))
                 [(0, 0), (0, 1), (1, 0), (1, 1)]
          = [Gene [g ! 0, h ! 0], Gene [g ! 0, h ! 1], Gene [g ! 1, h ! 0], Gene [g ! 1, h ! 1]]"
    using len by (simp add: Gene_mate_nonempty Gene_pair)
  have 2: "mset (map (\<lambda>(i, j). map_sum id fst (Gene_mate g h (r\<lparr>picks := i ## j ## picks r\<rparr>)))
                 [(0, 0), (0, 1), (1, 0), (1, 1)])
          = mset [Gene [a1, a3], Gene [a1, a4], Gene [a2, a3], Gene [a2, a4]]"
    unfolding slots by (cases "a1 \<le> a2"; cases "a3 \<le> a4") (simp_all add: g h)
  have 3: "Gene_mate [1, 1] [2, 2] r = Inr ([1, 2], r\<lparr>picks := stl (stl (picks r))\<rparr>)"
    by (simp add: Gene_mate_nonempty nth2 sort2)
  from 1 2 3 show ?thesis by blast
qed

theorem Gene_mate_outcomes_witness:
  "Gene [5, 4] = Inr [4, 5] \<and> Gene [7, 9] = Inr [7, 9]
   \<and> Gene_mate [4, 5] [7, 9] \<lparr>floats = sconst 0, picks = 1 ## 0 ## sconst 0\<rparr>
       = Inr ([5, 7], \<lparr>floats = sconst 0, picks = sconst 0\<rparr>)"
proof -
  have a: "Gene [5, 4] = Inr [4, 5]" and b: "Gene [7, 9] = Inr [7, 9]"
    by (simp_all add: Gene_def sort2)
  from Gene_mate_outcomes [OF a b, of "\<lparr>floats = sconst 0, picks = 1 ## 0 ## sconst 0\<rparr>"]
  obtain c where "Gene_mate [4, 5] [7, 9] \<lparr>floats = sconst 0, picks = 1 ## 0 ## sconst 0\<rparr>
       = Inr (c, \<lparr>floats = sconst 0, picks = sconst 0\<rparr>)" by auto
  moreover have "Gene_mate [4, 5] [7, 9] \<lparr>floats = sconst 0, picks = 1 ## 0 ## sconst 0\<rparr>
       = Inr ([5, 7], \<lparr>floats = sconst 0, picks = sconst 0\<rparr>)"
    by (simp add: Gene_mate_nonempty sort2)
  ultimately show ?thesis using a b by simp
qed

subsection \<open>Genome.mate\<close>

text \<open>
  C7. \<open>Genome.mate\<close> fails (the AssertionError of
  \<^verbatim>\<open>assert len(self) == len(other)\<close>, which the spec calls LocusMismatch) whenever the
  two genomes differ in their number of loci. For two Genomes of equal length it returns a
  Genome of that length whose gene at every locus \<open>i\<close> is exactly
  \<open>self[i].mate(other[i])\<close>, run on its own two index draws (the draws \<open>2i\<close> and
  \<open>2i+1\<close> of the call), so the loci are resampled independently and in order.
\<close>

theorem Genome_mate_loci:
  "(length self \<noteq> length other \<longrightarrow> Genome_mate self other r = Inl AssertionError)
   \<and> (is_Genome self \<and> is_Genome other \<and> length self = length other \<longrightarrow>
        (\<exists>g. Genome_mate self other r = Inr (g, r\<lparr>picks := sdrop (2 * length self) (picks r)\<rparr>)
           \<and> length g = length self \<and> is_Genome g
           \<and> (\<forall>i<length self.
                 Gene_mate (self ! i) (other ! i) (r\<lparr>picks := sdrop (2 * i) (picks r)\<rparr>)
                   = Inr (g ! i, r\<lparr>picks := sdrop (2 * i + 2) (picks r)\<rparr>))))"
proof (intro conjI impI)
  assume "length self \<noteq> length other"
  then show "Genome_mate self other r = Inl AssertionError" by (simp add: Genome_mate_def)
next
  assume "is_Genome self \<and> is_Genome other \<and> length self = length other"
  then show "\<exists>g. Genome_mate self other r = Inr (g, r\<lparr>picks := sdrop (2 * length self) (picks r)\<rparr>)
           \<and> length g = length self \<and> is_Genome g
           \<and> (\<forall>i<length self.
                 Gene_mate (self ! i) (other ! i) (r\<lparr>picks := sdrop (2 * i) (picks r)\<rparr>)
                   = Inr (g ! i, r\<lparr>picks := sdrop (2 * i + 2) (picks r)\<rparr>))"
    using Genome_mate_ok [of self other r] by blast
qed

theorem Genome_mate_loci_witness:
  "length [[1, 1], [3, 4 :: int]] \<noteq> length [[2, 2 :: int]]
   \<and> Genome_mate [[1, 1], [3, 4]] [[2, 2]] \<lparr>floats = sconst 0, picks = sconst 1\<rparr> = Inl AssertionError
   \<and> is_Genome [[1, 1], [3, 4]] \<and> is_Genome [[2, 2], [5, 6]]
   \<and> length [[1, 1], [3, 4 :: int]] = length [[2, 2], [5, 6 :: int]]
   \<and> Genome_mate [[1, 1], [3, 4]] [[2, 2], [5, 6]] \<lparr>floats = sconst 0, picks = sconst 1\<rparr>
       = Inr ([[1, 2], [4, 6]], \<lparr>floats = sconst 0, picks = sconst 1\<rparr>)"
proof -
  let ?r = "\<lparr>floats = sconst 0, picks = sconst 1\<rparr>"
  have a: "length [[1, 1], [3, 4 :: int]] \<noteq> length [[2, 2 :: int]]" by simp
  have b: "is_Genome [[1, 1], [3, 4]] \<and> is_Genome [[2, 2], [5, 6]]
           \<and> length [[1, 1], [3, 4 :: int]] = length [[2, 2], [5, 6 :: int]]"
    by (simp add: is_Genome_def)
  from Genome_mate_loci [of "[[1, 1], [3, 4]]" "[[2, 2]]" ?r] a
  have 1: "Genome_mate [[1, 1], [3, 4]] [[2, 2]] ?r = Inl AssertionError" by blast
  from Genome_mate_loci [of "[[1, 1], [3, 4]]" "[[2, 2], [5, 6]]" ?r] b
  obtain g where g: "Genome_mate [[1, 1], [3, 4]] [[2, 2], [5, 6]] ?r
                       = Inr (g, ?r\<lparr>picks := sdrop (2 * length [[1, 1], [3, 4 :: int]]) (picks ?r)\<rparr>)"
    "length g = length [[1, 1], [3, 4 :: int]]"
    "\<forall>i<length [[1, 1], [3, 4 :: int]].
                 Gene_mate ([[1, 1], [3, 4]] ! i) ([[2, 2], [5, 6]] ! i) (?r\<lparr>picks := sdrop (2 * i) (picks ?r)\<rparr>)
                   = Inr (g ! i, ?r\<lparr>picks := sdrop (2 * i + 2) (picks ?r)\<rparr>)"
    by blast
  from g(3) [rule_format, of 0] have "Gene_mate [1, 1] [2, 2] ?r = Inr (g ! 0, ?r)"
    by simp
  moreover from g(3) [rule_format, of 1] have "Gene_mate [3, 4] [5, 6] ?r = Inr (g ! 1, ?r)"
    by simp
  ultimately have "g ! 0 = [1, 2]" "g ! 1 = [4, 6]"
    by (simp_all add: Gene_mate_nonempty sort2)
  with g(2) have "g = [[1, 2], [4, 6]]"
    by (cases g; cases "tl g") auto
  with g(1) 1 a b show ?thesis by simp
qed

subsection \<open>weighted\_choice\<close>

text \<open>
  C3, as the spec states it, fails on the code when a weight is negative: the cumulative
  weights are then not sorted and the binary search need not find the first position. On
  the weights 3, -2, 1 the total is 2 and the cumulative weights are 3, 1, 2; at the draw
  3/4, so \<open>x = 3/2\<close>, position 0 already exceeds \<open>x\<close>, and the value at position 2 is
  returned.
\<close>

theorem weighted_choice_negative_weight_not_first:
  "0 < sum_list (map snd [(''a'', 3), (''b'', - 2), (''c'', 1 :: int)])
   \<and> (3 / 4) * real_of_int (sum_list (map snd [(''a'', 3), (''b'', - 2), (''c'', 1 :: int)]))
        < real_of_int (sum_list (take (Suc 0) (map snd [(''a'', 3), (''b'', - 2), (''c'', 1 :: int)])))
   \<and> weighted_choice [(''a'', 3), (''b'', - 2), (''c'', 1)]
        \<lparr>floats = (3 / 4) ## sconst 0, picks = sconst 0\<rparr>
       = Inr (''c'', \<lparr>floats = sconst 0, picks = sconst 0\<rparr>)"
proof -
  have b: "bisect [3, 1, 2] (3 / 2) = 2"
    unfolding bisect_def
    by (subst bisect_loop.simps, simp add: Let_def)+
  have "weighted_choice [(''a'', 3), (''b'', - 2), (''c'', 1)]
          \<lparr>floats = (3 / 4) ## sconst 0, picks = sconst 0\<rparr>
        = Inr (''c'', \<lparr>floats = sconst 0, picks = sconst 0\<rparr>)"
    by (simp add: weighted_choice_eq Let_def b)
  then show ?thesis by simp
qed

text \<open>
  C3, amended. For a collection of (value, weight) pairs whose weights are all
  non-negative and whose total weight is positive, and a draw \<open>u\<close> of
  \<^verbatim>\<open>random.random()\<close> in \<open>[0, 1)\<close>, so that \<open>x = u * total\<close> lies in \<open>[0, total)\<close>:
  \<open>weighted_choice\<close> returns the value at the first position whose cumulative weight (the
  sum of the weights up to and including that position, in iteration order) strictly
  exceeds \<open>x\<close>. The weight at that position is positive, so, the values being distinct
  as the keys of a dict are, a value of weight zero is never returned.
\<close>

theorem weighted_choice_first_exceeding:
  assumes nonneg: "\<forall>w \<in> set (map snd choices). 0 \<le> w"
    and pos: "0 < sum_list (map snd choices)"
    and u: "0 \<le> shd (floats r)" "shd (floats r) < 1"
  shows "\<exists>i<length choices.
           weighted_choice choices r = Inr (fst (choices ! i), r\<lparr>floats := stl (floats r)\<rparr>)
           \<and> shd (floats r) * real_of_int (sum_list (map snd choices))
                < real_of_int (sum_list (take (Suc i) (map snd choices)))
           \<and> (\<forall>j<i. real_of_int (sum_list (take (Suc j) (map snd choices)))
                       \<le> shd (floats r) * real_of_int (sum_list (map snd choices)))
           \<and> 0 < snd (choices ! i)
           \<and> (distinct (map fst choices) \<longrightarrow> (fst (choices ! i), 0) \<notin> set choices)"
proof -
  define ws where "ws = map snd choices"
  define x where "x = shd (floats r) * real_of_int (sum_list ws)"
  from weighted_choice_pos [OF pos u] obtain i where
    i: "i < length choices"
       "weighted_choice choices r = Inr (fst (choices ! i), r\<lparr>floats := stl (floats r)\<rparr>)"
       "x < real_of_int (sum_list (take (Suc i) ws))"
       "i = 0 \<or> real_of_int (sum_list (take i ws)) \<le> x"
    unfolding x_def ws_def by blast
  have nn: "\<forall>w \<in> set ws. 0 \<le> w" using nonneg by (simp add: ws_def)
  have below: "real_of_int (sum_list (take (Suc j) ws)) \<le> x" if "j < i" for j
  proof -
    from that have "Suc j \<le> i" "i \<noteq> 0" by simp_all
    then have "sum_list (take (Suc j) ws) \<le> sum_list (take i ws)"
      using sum_list_take_mono [OF nn] by blast
    moreover have "real_of_int (sum_list (take i ws)) \<le> x" using i(4) \<open>i \<noteq> 0\<close> by simp
    ultimately show ?thesis by linarith
  qed
  have x0: "0 \<le> x" using u(1) pos by (simp add: x_def ws_def)
  have step: "sum_list (take (Suc i) ws) = sum_list (take i ws) + ws ! i"
    using i(1) by (simp add: take_Suc_conv_app_nth ws_def)
  have prev: "real_of_int (sum_list (take i ws)) \<le> x"
    using i(4) x0 by (cases "i = 0") auto
  have wpos: "0 < ws ! i"
  proof -
    have "real_of_int (sum_list (take i ws)) < real_of_int (sum_list (take i ws) + ws ! i)"
      using prev i(3) step by simp
    then show ?thesis by simp
  qed
  then have sndpos: "0 < snd (choices ! i)" using i(1) by (simp add: ws_def)
  have dist: "(fst (choices ! i), 0) \<notin> set choices" if d: "distinct (map fst choices)"
  proof
    assume z: "(fst (choices ! i), 0) \<in> set choices"
    have "(fst (choices ! i), snd (choices ! i)) \<in> set choices" using i(1) by simp
    with z d have "snd (choices ! i) = 0" by (meson eq_key_imp_eq_value)
    with sndpos show False by simp
  qed
  from i(1,2,3) below sndpos dist show ?thesis unfolding x_def ws_def by blast
qed

theorem weighted_choice_first_exceeding_witness:
  "list_all (\<lambda>w. 0 \<le> w) (map snd [(''a'', 0), (''b'', 2), (''c'', 0), (''d'', 1 :: int)])
   \<and> 0 < sum_list (map snd [(''a'', 0), (''b'', 2), (''c'', 0), (''d'', 1 :: int)])
   \<and> weighted_choice [(''a'', 0), (''b'', 2), (''c'', 0), (''d'', 1)]
        \<lparr>floats = (2 / 3) ## sconst 0, picks = sconst 0\<rparr>
       = Inr (''d'', \<lparr>floats = sconst 0, picks = sconst 0\<rparr>)"
proof -
  let ?cs = "[(''a'', 0), (''b'', 2), (''c'', 0), (''d'', 1 :: int)]"
  let ?r = "\<lparr>floats = (2 / 3) ## sconst 0, picks = sconst 0\<rparr>"
  have h: "\<forall>w \<in> set (map snd ?cs). 0 \<le> w" "0 < sum_list (map snd ?cs)"
    "0 \<le> shd (floats ?r)" "shd (floats ?r) < 1" by simp_all
  from weighted_choice_first_exceeding [OF h] obtain i where
    i: "i < length ?cs" "weighted_choice ?cs ?r = Inr (fst (?cs ! i), ?r\<lparr>floats := stl (floats ?r)\<rparr>)"
       "shd (floats ?r) * real_of_int (sum_list (map snd ?cs))
                < real_of_int (sum_list (take (Suc i) (map snd ?cs)))"
    by blast
  from i(1) have "i = 0 \<or> i = 1 \<or> i = 2 \<or> i = 3" by auto
  with i(3) have "i = 3" by auto
  with i(2) have "weighted_choice ?cs ?r = Inr (''d'', \<lparr>floats = sconst 0, picks = sconst 0\<rparr>)" by simp
  with h show ?thesis by simp
qed

text \<open>
  C4, as the spec states it, fails on the code when a weight is negative: the collection
  with the weights 1 and -1 is not empty, its weights are not all zero and one of them is
  positive, yet the total is 0, the search returns the length and \<^verbatim>\<open>values[i]\<close> raises
  IndexError.
\<close>

theorem weighted_choice_negative_weight_fails:
  "weighted_choice [(''a'', 1), (''b'', - 1)] \<lparr>floats = sconst 0, picks = sconst 0\<rparr>
     = Inl IndexError"
proof -
  have b: "bisect [1, 0] 0 = 2"
    unfolding bisect_def
    by (subst bisect_loop.simps, simp add: Let_def)+
  show ?thesis by (simp add: weighted_choice_eq Let_def b)
qed

text \<open>
  C4, amended. On a collection whose weights are all non-negative, and a draw in
  \<open>[0, 1)\<close>, \<open>weighted_choice\<close> fails when, and only when, the collection is empty or
  all its weights are zero, and with at least one positive weight it returns one of the
  values. The failure the spec calls InvalidDistribution is, in the code, the ValueError of
  the unpacking \<^verbatim>\<open>values, weights = zip(*choices)\<close> for the empty collection and the
  IndexError of \<^verbatim>\<open>values[i]\<close> when all weights are zero.
\<close>

theorem weighted_choice_fails_iff:
  assumes nonneg: "\<forall>w \<in> set (map snd choices). 0 \<le> w"
    and u: "0 \<le> shd (floats r)" "shd (floats r) < 1"
  shows "((\<exists>e. weighted_choice choices r = Inl e)
            \<longleftrightarrow> choices = [] \<or> (\<forall>w \<in> set (map snd choices). w = 0))
       \<and> ((\<exists>w \<in> set (map snd choices). 0 < w) \<longrightarrow>
            (\<exists>v \<in> set (map fst choices).
               weighted_choice choices r = Inr (v, r\<lparr>floats := stl (floats r)\<rparr>)))
       \<and> (choices = [] \<longrightarrow> weighted_choice choices r = Inl ValueError)
       \<and> (choices \<noteq> [] \<and> (\<forall>w \<in> set (map snd choices). w = 0) \<longrightarrow>
            weighted_choice choices r = Inl IndexError)"
proof -
  have e: "weighted_choice choices r = Inl ValueError" if "choices = []"
    using that by (simp add: weighted_choice_def)
  have z: "weighted_choice choices r = Inl IndexError"
    if "choices \<noteq> []" "\<forall>w \<in> set (map snd choices). w = 0"
    using that by (rule weighted_choice_zero)
  have p: "\<exists>v \<in> set (map fst choices). weighted_choice choices r = Inr (v, r\<lparr>floats := stl (floats r)\<rparr>)"
    if "\<exists>w \<in> set (map snd choices). 0 < w"
  proof -
    from that obtain w where w: "w \<in> set (map snd choices)" "0 < w" by blast
    have "w \<le> sum_list (map snd choices)"
      using nonneg w(1) by (intro member_le_sum_list) auto
    with w(2) have "0 < sum_list (map snd choices)" by simp
    from weighted_choice_pos [OF this u] obtain i where
      "i < length choices"
      "weighted_choice choices r = Inr (fst (choices ! i), r\<lparr>floats := stl (floats r)\<rparr>)"
      by blast
    then show ?thesis by auto
  qed
  have iff: "(\<exists>e. weighted_choice choices r = Inl e)
            \<longleftrightarrow> choices = [] \<or> (\<forall>w \<in> set (map snd choices). w = 0)"
  proof
    assume f: "\<exists>e. weighted_choice choices r = Inl e"
    show "choices = [] \<or> (\<forall>w \<in> set (map snd choices). w = 0)"
    proof (rule ccontr)
      assume "\<not> (choices = [] \<or> (\<forall>w \<in> set (map snd choices). w = 0))"
      then obtain w where "w \<in> set (map snd choices)" "w \<noteq> 0" by blast
      with nonneg have "\<exists>w \<in> set (map snd choices). 0 < w" by force
      from p [OF this] f show False by auto
    qed
  next
    assume "choices = [] \<or> (\<forall>w \<in> set (map snd choices). w = 0)"
    then show "\<exists>e. weighted_choice choices r = Inl e" using e z by (cases "choices = []") auto
  qed
  from iff p e z show ?thesis by blast
qed

theorem weighted_choice_fails_iff_witness:
  "list_all (\<lambda>w. 0 \<le> w) (map snd [(''a'', 0), (''b'', 3 :: int)])
   \<and> (\<exists>w \<in> set (map snd [(''a'', 0), (''b'', 3 :: int)]). 0 < w)
   \<and> (\<exists>v \<in> {''a'', ''b''}.
         weighted_choice [(''a'', 0), (''b'', 3)] \<lparr>floats = sconst 0, picks = sconst 0\<rparr>
           = Inr (v, \<lparr>floats = sconst 0, picks = sconst 0\<rparr>))
   \<and> weighted_choice ([] :: (string \<times> int) list) \<lparr>floats = sconst 0, picks = sconst 0\<rparr>
       = Inl ValueError
   \<and> weighted_choice [(''a'', 0), (''b'', 0)] \<lparr>floats = sconst 0, picks = sconst 0\<rparr>
       = Inl IndexError"
proof -
  let ?r = "\<lparr>floats = sconst 0, picks = sconst 0\<rparr>"
  have u: "0 \<le> shd (floats ?r)" "shd (floats ?r) < 1" by simp_all
  have h1: "\<forall>w \<in> set (map snd [(''a'', 0), (''b'', 3 :: int)]). 0 \<le> w" by simp
  have h2: "\<exists>w \<in> set (map snd [(''a'', 0), (''b'', 3 :: int)]). 0 < w" by simp
  have h3: "\<forall>w \<in> set (map snd ([] :: (string \<times> int) list)). 0 \<le> w" by simp
  have h4: "\<forall>w \<in> set (map snd [(''a'', 0), (''b'', 0 :: int)]). 0 \<le> w" by simp
  from weighted_choice_fails_iff [OF h1 u] h2
  have 1: "\<exists>v \<in> {''a'', ''b''}. weighted_choice [(''a'', 0), (''b'', 3)] ?r = Inr (v, ?r)"
    by simp
  from weighted_choice_fails_iff [OF h3 u]
  have 2: "weighted_choice ([] :: (string \<times> int) list) ?r = Inl ValueError" by simp
  from weighted_choice_fails_iff [OF h4 u]
  have 3: "weighted_choice [(''a'', 0), (''b'', 0)] ?r = Inl IndexError" by simp
  from h2 1 2 3 show ?thesis by simp
qed

subsection \<open>Constructing a Species\<close>

text \<open>
  C8, as the spec states it, fails on the code: a negative count and genomes with different
  numbers of loci are accepted. The constructor below succeeds on a mapping that has both.
\<close>

theorem Species_accepts_negative_count:
  "Species [(GenomeObj [[1, 1]] :: unit pyobj, - 1), (GenomeObj [[1, 1], [2, 2]], 1)]
     = Inr [([[1, 1]], - 1), ([[1, 1], [2, 2]], 1)]"
  by (simp add: Species_def)

text \<open>
  C8, amended. Constructing a Species fails (with the AssertionError of
  \<^verbatim>\<open>assert all(isinstance(g, Genome) for g in genome_dict)\<close>) when, and only when,
  some key is not a Genome. Otherwise it succeeds and keeps every key with its count,
  whatever the counts and the numbers of loci are.
\<close>

theorem Species_checks_keys_only:
  "((\<exists>e. Species genome_dict = Inl e) \<longleftrightarrow> (\<exists>(k, n) \<in> set genome_dict. \<not> isinstance_Genome k))
   \<and> ((\<exists>(k, n) \<in> set genome_dict. \<not> isinstance_Genome k) \<longrightarrow>
         Species genome_dict = Inl AssertionError)
   \<and> Species (map (\<lambda>(g, n). (GenomeObj g, n)) sp) = Inr sp"
proof -
  have a: "list_all (\<lambda>(g, n). isinstance_Genome g) genome_dict
            \<longleftrightarrow> \<not> (\<exists>(k, n) \<in> set genome_dict. \<not> isinstance_Genome k)"
    by (auto simp: list_all_iff)
  have b: "map (\<lambda>(g, n). (the_Genome g, n)) (map (\<lambda>(g, n). (GenomeObj g, n)) sp) = sp"
    by (induction sp) auto
  have c: "list_all (\<lambda>(g, n). isinstance_Genome g) (map (\<lambda>(g, n). (GenomeObj g, n)) sp)"
    by (induction sp) auto
  show ?thesis
    using a b c by (auto simp: Species_def)
qed

theorem Species_checks_keys_only_witness:
  "Species [(GenomeObj [[1, 1]], 2), (OtherObj ''x'', 1)] = Inl AssertionError
   \<and> Species [(GenomeObj [[1, 1]] :: string pyobj, - 2), (GenomeObj [[1, 1], [2, 2]], 0)]
       = Inr [([[1, 1]], - 2), ([[1, 1], [2, 2]], 0)]"
proof -
  have "\<exists>(k, n) \<in> set [(GenomeObj [[1, 1]], 2 :: int), (OtherObj ''x'', 1)]. \<not> isinstance_Genome k"
    by simp
  with Species_checks_keys_only [of "[(GenomeObj [[1, 1]], 2), (OtherObj ''x'', 1)]"]
  have 1: "Species [(GenomeObj [[1, 1]], 2), (OtherObj ''x'', 1)] = Inl AssertionError"
    by blast
  from Species_checks_keys_only [where sp = "[([[1, 1]], - 2), ([[1, 1], [2, 2]], 0)]"
      and 'a = string and 'b = string]
  have 2: "Species [(GenomeObj [[1, 1]] :: string pyobj, - 2), (GenomeObj [[1, 1], [2, 2]], 0)]
       = Inr [([[1, 1]], - 2), ([[1, 1], [2, 2]], 0)]"
    by simp
  from 1 2 show ?thesis by simp
qed

subsection \<open>Frequencies\<close>

lemma frequencies_eq:
  "frequencies items t =
     (if items \<noteq> [] \<and> t = 0 then Inl ZeroDivisionError
      else Inr (map (\<lambda>(k, cnt). (k, real_of_int cnt / t)) items))"
  by (induction items) (auto simp: truediv_def)

text \<open>
  C9, as the spec states it, fails on the code: on a Species with no key both
  \<open>genome_frequencies\<close> and \<open>allele_frequencies\<close> return the empty mapping instead of
  failing, and a genome whose count is zero stays in the mapping (with frequency 0).
\<close>

theorem frequencies_of_empty_Species:
  "genome_frequencies [] = Inr []
   \<and> allele_frequencies [] 0 = Inr []
   \<and> genome_frequencies [([[1, 1]], 0), ([[2, 2]], 2)] = Inr [([[1, 1]], 0), ([[2, 2]], 1)]"
  by (simp add: genome_frequencies_def allele_frequencies_def allele_counts_def truediv_def)

text \<open>
  C9, amended. \<open>genome_frequencies\<close> returns a mapping with every key of the Species,
  those of count zero included, each mapped to count/total. It fails (with Python's
  ZeroDivisionError, the spec's EmptyPopulation) when, and only when, the total is zero and
  the Species has at least one key; \<open>allele_frequencies\<close> fails in the same way when the
  allele counts at the locus sum to zero and there is at least one allele. On a Species
  with no key both return the empty mapping.
\<close>

theorem genome_frequencies_all_keys:
  "genome_frequencies self =
     (if self \<noteq> [] \<and> population self = 0 then Inl ZeroDivisionError
      else Inr (map (\<lambda>(g, cnt). (g, real_of_int cnt / real_of_int (population self))) self))
   \<and> (allele_counts self locus = Inr ac \<longrightarrow>
        allele_frequencies self locus =
          (if ac \<noteq> [] \<and> sum_list (map snd ac) = 0 then Inl ZeroDivisionError
           else Inr (map (\<lambda>(al, cnt). (al, real_of_int cnt / real_of_int (sum_list (map snd ac)))) ac)))
   \<and> genome_frequencies [] = Inr []
   \<and> allele_frequencies [] locus = Inr []"
  by (simp add: genome_frequencies_def allele_frequencies_def allele_counts_def population_def
      frequencies_eq)

theorem genome_frequencies_all_keys_witness:
  "genome_frequencies [([[1, 1]], 0), ([[2, 2]], 4)] = Inr [([[1, 1]], 0), ([[2, 2]], 1)]
   \<and> genome_frequencies [([[1, 1]], 0)] = Inl ZeroDivisionError
   \<and> allele_counts [([[1, 2]], 3)] 0 = Inr [(1, 3), (2, 3)]
   \<and> allele_frequencies [([[1, 2]], 3)] 0 = Inr [(1, 1 / 2), (2, 1 / 2)]"
proof -
  have ac: "allele_counts [([[1, 2]], 3)] 0 = Inr [(1, 3), (2, 3)]"
    by (simp add: allele_counts_def getitem_def Genome_allele_count_def Gene_allele_count_def
        dict_iadd_def)
  from genome_frequencies_all_keys [of "[([[1, 1]], 0), ([[2, 2]], 4)]" 0 "[]"]
  have 1: "genome_frequencies [([[1, 1]], 0), ([[2, 2]], 4)] = Inr [([[1, 1]], 0), ([[2, 2]], 1)]"
    by (simp add: population_def)
  from genome_frequencies_all_keys [of "[([[1, 1]], 0)]" 0 "[]"]
  have 2: "genome_frequencies [([[1, 1]], 0)] = Inl ZeroDivisionError"
    by (simp add: population_def)
  from genome_frequencies_all_keys [of "[([[1, 2]], 3)]" 0 "[(1, 3), (2, 3)]"] ac
  have 3: "allele_frequencies [([[1, 2]], 3)] 0 = Inr [(1, 1 / 2), (2, 1 / 2)]"
    by simp
  from ac 1 2 3 show ?thesis by simp
qed

subsection \<open>One generation of mating\<close>

lemma weighted_choice_11:
  assumes "unit_floats r"
  shows "weighted_choice [(a, 1), (b, 1)] r = Inr (a, r\<lparr>floats := stl (floats r)\<rparr>)
       \<or> weighted_choice [(a, 1), (b, 1)] r = Inr (b, r\<lparr>floats := stl (floats r)\<rparr>)"
proof -
  have "0 < sum_list (map snd [(a, 1), (b, 1 :: int)])" by simp
  from weighted_choice_pos [OF this] unit_floats_shd [OF assms]
  obtain i where "i < length [(a, 1), (b, 1 :: int)]"
    "weighted_choice [(a, 1), (b, 1)] r = Inr (fst ([(a, 1), (b, 1 :: int)] ! i), r\<lparr>floats := stl (floats r)\<rparr>)"
    by blast
  then show ?thesis by (cases i) auto
qed

lemma weighted_choice_01:
  assumes "unit_floats r"
  shows "weighted_choice [(a, 0), (b, 1)] r = Inr (b, r\<lparr>floats := stl (floats r)\<rparr>)"
proof -
  have "0 < sum_list (map snd [(a, 0), (b, 1 :: int)])" by simp
  from weighted_choice_pos [OF this] unit_floats_shd [OF assms]
  obtain i where i: "i < length [(a, 0), (b, 1 :: int)]"
    "weighted_choice [(a, 0), (b, 1)] r = Inr (fst ([(a, 0), (b, 1 :: int)] ! i), r\<lparr>floats := stl (floats r)\<rparr>)"
    "shd (floats r) * real_of_int (sum_list (map snd [(a, 0), (b, 1 :: int)]))
       < real_of_int (sum_list (take (Suc i) (map snd [(a, 0), (b, 1 :: int)])))"
    by blast
  from i(3) unit_floats_shd [OF assms] have "i \<noteq> 0" by (intro notI) simp
  with i(1) have "i = 1" by simp
  with i(2) show ?thesis by simp
qed

lemma weighted_choice_10:
  assumes "unit_floats r"
  shows "weighted_choice [(a, 1), (b, 0)] r = Inr (a, r\<lparr>floats := stl (floats r)\<rparr>)"
proof -
  have "0 < sum_list (map snd [(a, 1), (b, 0 :: int)])" by simp
  from weighted_choice_pos [OF this] unit_floats_shd [OF assms]
  obtain i where i: "i < length [(a, 1), (b, 0 :: int)]"
    "weighted_choice [(a, 1), (b, 0)] r = Inr (fst ([(a, 1), (b, 0 :: int)] ! i), r\<lparr>floats := stl (floats r)\<rparr>)"
    "i = 0 \<or> real_of_int (sum_list (take i (map snd [(a, 1), (b, 0 :: int)])))
                 \<le> shd (floats r) * real_of_int (sum_list (map snd [(a, 1), (b, 0 :: int)]))"
    by blast
  have "i \<noteq> 1"
  proof
    assume "i = 1"
    with i(3) have "1 \<le> shd (floats r)" by simp
    with unit_floats_shd [OF assms] show False by simp
  qed
  with i(1) have "i = 0" by (cases i) auto
  with i(2) show ?thesis by simp
qed

lemma mate_round_mismatch:
  assumes u: "unit_floats r" and len: "length g \<noteq> length h"
  shows "mate_round [(g, 1), (h, 1)] self r = Inl AssertionError"
proof -
  have ne: "g \<noteq> h" using len by auto
  define r1 where "r1 = r\<lparr>floats := stl (floats r)\<rparr>"
  define r2 where "r2 = r1\<lparr>floats := stl (floats r1)\<rparr>"
  have u1: "unit_floats r1" using u by (simp add: r1_def unit_floats_stl)
  from weighted_choice_11 [OF u, of g h]
  consider (a) "weighted_choice [(g, 1), (h, 1)] r = Inr (g, r1)"
    | (b) "weighted_choice [(g, 1), (h, 1)] r = Inr (h, r1)"
    by (auto simp: r1_def)
  then show ?thesis
  proof cases
    case a
    have s1: "dict_iadd [(g, 1), (h, 1)] g (- 1) = [(g, 0), (h, 1)]"
      by (simp add: dict_iadd_def)
    have w2: "weighted_choice [(g, 0), (h, 1)] r1 = Inr (h, r2)"
      using weighted_choice_01 [OF u1] by (simp add: r2_def)
    have m: "Genome_mate g h r2 = Inl AssertionError"
      using len by (simp add: Genome_mate_def)
    show ?thesis by (simp add: mate_round_def a s1 w2 m)
  next
    case b
    have s1: "dict_iadd [(g, 1), (h, 1)] h (- 1) = [(g, 1), (h, 0)]"
      using ne by (simp add: dict_iadd_def)
    have w2: "weighted_choice [(g, 1), (h, 0)] r1 = Inr (g, r2)"
      using weighted_choice_10 [OF u1] by (simp add: r2_def)
    have m: "Genome_mate h g r2 = Inl AssertionError"
      using len by (simp add: Genome_mate_def)
    show ?thesis by (simp add: mate_round_def b s1 w2 m)
  qed
qed

text \<open>
  C1, as the spec states it, fails on the code, which builds a Species without checking
  the counts or the numbers of loci. With a negative total the loop does not run and the
  total stays \<open>N\<close>, which is not \<open>N + floor(N/2)\<close>: on \<open>{Genome((1,1)): -3}\<close> the total
  stays -3, not -5. With genomes of different numbers of loci the two parents drawn cannot
  mate: on \<open>{Genome((1,1)): 1, Genome((1,1),(2,2)): 1}\<close> the call fails with the
  AssertionError of \<open>Genome.mate\<close>.
\<close>

theorem Species_mate_negative_or_mismatched:
  "population [([[1, 1]], - 3)] = - 3
   \<and> population [([[1, 1]], - 3)] + population [([[1, 1]], - 3)] div 2 = - 5
   \<and> Species_mate [([[1, 1]], - 3)] \<lparr>floats = sconst 0, picks = sconst 0\<rparr>
       = Inr ([([[1, 1]], - 3)], \<lparr>floats = sconst 0, picks = sconst 0\<rparr>)
   \<and> Species_mate [([[1, 1]], 1), ([[1, 1], [2, 2]], 1)] \<lparr>floats = sconst 0, picks = sconst 0\<rparr>
       = Inl AssertionError"
proof -
  let ?r = "\<lparr>floats = sconst 0, picks = sconst 0\<rparr>"
  have u: "unit_floats ?r" by (simp add: unit_floats_def)
  have 1: "Species_mate [([[1, 1]], - 3)] ?r = Inr ([([[1, 1]], - 3)], ?r)"
    unfolding Species_mate_eq by (subst mate_loop.simps) (simp add: population_def)
  have "mate_round [([[1, 1]], 1), ([[1, 1], [2, 2]], 1)] [([[1, 1]], 1), ([[1, 1], [2, 2]], 1)] ?r
          = Inl AssertionError"
    using u by (rule mate_round_mismatch) simp
  then have 2: "Species_mate [([[1, 1]], 1), ([[1, 1], [2, 2]], 1)] ?r = Inl AssertionError"
    unfolding Species_mate_eq by (subst mate_loop.simps) (simp add: population_def)
  from 1 2 show ?thesis by (simp add: population_def)
qed

text \<open>
  C1, amended. Take a Species whose genomes (tuples that \<open>Genome\<close> builds, two sorted
  alleles at every locus) all have the same number \<open>L\<close> of loci and whose total \<open>N\<close>
  is not negative, and any random source whose floats lie in \<open>[0, 1)\<close>. One
  call of \<open>mate\<close> returns normally (the loop is a total function), no genome's count in
  the live population decreases and no genome leaves it, and the total afterwards is
  exactly \<open>N + floor(N/2)\<close>.
\<close>

theorem Species_mate_growth:
  assumes "\<forall>g \<in> fst ` set self. is_Genome g \<and> length g = L"
    and "0 \<le> population self"
    and "unit_floats r"
  shows "\<exists>self' r'. Species_mate self r = Inr (self', r')
           \<and> population self' = population self + population self div 2
           \<and> (\<forall>g. dict_get self g \<le> dict_get self' g)
           \<and> fst ` set self \<subseteq> fst ` set self'"
proof -
  from mate_loop_ok [OF assms(1,3), of self] obtain self' r' where
    l: "mate_loop self self r = Inr (self', r')"
       "population self' = population self + (if 2 \<le> population self then population self div 2 else 0)"
       "\<forall>g. dict_get self g \<le> dict_get self' g"
       "fst ` set self \<subseteq> fst ` set self'"
    by blast
  have "(if 2 \<le> population self then population self div 2 else 0) = population self div 2"
    using assms(2) by auto
  with l show ?thesis by (simp add: Species_mate_eq)
qed

theorem Species_mate_growth_witness:
  "population [([[1, 1]], 2), ([[2, 2]], 1)] = 3
   \<and> unit_floats \<lparr>floats = sconst 0, picks = sconst 0\<rparr>
   \<and> (\<exists>self' r'. Species_mate [([[1, 1]], 2), ([[2, 2]], 1)] \<lparr>floats = sconst 0, picks = sconst 0\<rparr>
                     = Inr (self', r')
          \<and> population self' = 4
          \<and> 2 \<le> dict_get self' [[1, 1]] \<and> 1 \<le> dict_get self' [[2, 2]])"
proof -
  let ?sp = "[([[1, 1 :: int]], 2), ([[2, 2]], 1 :: int)]"
  let ?r = "\<lparr>floats = sconst 0, picks = sconst 0\<rparr>"
  have k: "\<forall>g \<in> fst ` set ?sp. is_Genome g \<and> length g = 1" by (simp add: is_Genome_def)
  have p: "population ?sp = 3" by (simp add: population_def)
  have u: "unit_floats ?r" by (simp add: unit_floats_def)
  from Species_mate_growth [OF k _ u] p obtain self' r' where
    s: "Species_mate ?sp ?r = Inr (self', r')"
       "population self' = population ?sp + population ?sp div 2"
       "\<forall>g. dict_get ?sp g \<le> dict_get self' g"
    by auto
  from s(3) [rule_format, of "[[1, 1]]"] s(3) [rule_format, of "[[2, 2]]"]
  have "2 \<le> dict_get self' [[1, 1]]" "1 \<le> dict_get self' [[2, 2]]" by simp_all
  with s(1,2) p u show ?thesis by auto
qed

lemma Genome_mate_11_22:
  "Genome_mate [[1, 1]] [[2, 2]] r = Inr ([[1, 2]], r\<lparr>picks := stl (stl (picks r))\<rparr>)"
  "Genome_mate [[2, 2]] [[1, 1]] r = Inr ([[1, 2]], r\<lparr>picks := stl (stl (picks r))\<rparr>)"
  by (simp_all add: Genome_mate_def Gene_mate_nonempty nth2 sort2 Gene_def)

lemma mate_round_two:
  assumes "unit_floats r"
  shows "\<exists>r'. mate_round [([[1, 1]], 1), ([[2, 2]], 1)] self r
            = Inr ([([[1, 1]], 0), ([[2, 2]], 0)], dict_iadd self [[1, 2]] 1, r')"
proof -
  let ?s = "[([[1, 1 :: int]], 1), ([[2, 2]], 1 :: int)]"
  define r1 where "r1 = r\<lparr>floats := stl (floats r)\<rparr>"
  define r2 where "r2 = r1\<lparr>floats := stl (floats r1)\<rparr>"
  have u1: "unit_floats r1" using assms by (simp add: r1_def unit_floats_stl)
  from weighted_choice_11 [OF assms, of "[[1, 1 :: int]]" "[[2, 2 :: int]]"]
  consider (a) "weighted_choice ?s r = Inr ([[1, 1]], r1)"
    | (b) "weighted_choice ?s r = Inr ([[2, 2]], r1)"
    by (auto simp: r1_def)
  then show ?thesis
  proof cases
    case a
    have s1: "dict_iadd ?s [[1, 1]] (- 1) = [([[1, 1]], 0), ([[2, 2]], 1)]"
      by (simp add: dict_iadd_def)
    have w2: "weighted_choice [([[1, 1]], 0), ([[2, 2]], 1)] r1 = Inr ([[2, 2]], r2)"
      using weighted_choice_01 [OF u1] by (simp add: r2_def)
    have s2: "dict_iadd [([[1, 1 :: int]], 0), ([[2, 2]], 1 :: int)] [[2, 2]] (- 1) = [([[1, 1]], 0), ([[2, 2]], 0)]"
      by (simp add: dict_iadd_def)
    show ?thesis
      by (simp add: mate_round_def a s1 w2 s2 Genome_mate_11_22 del: dict_set.simps dict_get.simps)
  next
    case b
    have s1: "dict_iadd ?s [[2, 2]] (- 1) = [([[1, 1]], 1), ([[2, 2]], 0)]"
      by (simp add: dict_iadd_def)
    have w2: "weighted_choice [([[1, 1]], 1), ([[2, 2]], 0)] r1 = Inr ([[1, 1]], r2)"
      using weighted_choice_10 [OF u1] by (simp add: r2_def)
    have s2: "dict_iadd [([[1, 1 :: int]], 1), ([[2, 2]], 0 :: int)] [[1, 1]] (- 1) = [([[1, 1]], 0), ([[2, 2]], 0)]"
      by (simp add: dict_iadd_def)
    show ?thesis
      by (simp add: mate_round_def b s1 w2 s2 Genome_mate_11_22 del: dict_set.simps dict_get.simps)
  qed
qed

text \<open>
  C2. From the Species \<open>{Genome((1,1)): 1, Genome((2,2)): 1}\<close>, whatever the random source
  draws (floats in \<open>[0, 1)\<close>, any index draws), one call of \<open>mate\<close> returns the Species
  \<open>{Genome((1,1)): 1, Genome((2,2)): 1, Genome((1,2)): 1}\<close>: the total is 3,
  \<open>genome_frequencies()\<close> maps each of the three genomes to 1/3 and
  \<open>allele_frequencies()\<close> is \<open>{1: 1/2, 2: 1/2}\<close>. The second parent drawn is always the
  other genome, and the only offspring of the two is \<open>Genome((1,2))\<close>.
\<close>

theorem mate_two_genotypes:
  assumes "unit_floats r"
  shows "\<exists>self' r' gf.
           Species_mate [([[1, 1]], 1), ([[2, 2]], 1)] r = Inr (self', r')
           \<and> self' = [([[1, 1]], 1), ([[2, 2]], 1), ([[1, 2]], 1)]
           \<and> population self' = 3
           \<and> genome_frequencies self' = Inr gf
           \<and> gf = [([[1, 1]], 1 / 3), ([[2, 2]], 1 / 3), ([[1, 2]], 1 / 3)]
           \<and> map_of gf = map_of [([[1, 1]], 1 / 3), ([[1, 2]], 1 / 3), ([[2, 2]], 1 / 3)]
           \<and> allele_frequencies self' 0 = Inr [(1, 1 / 2), (2, 1 / 2)]"
proof -
  let ?s = "[([[1, 1 :: int]], 1), ([[2, 2]], 1 :: int)]"
  let ?t = "[([[1, 1 :: int]], 1), ([[2, 2]], 1), ([[1, 2]], 1 :: int)]"
  from mate_round_two [OF assms, of ?s] obtain r' where
    round: "mate_round ?s ?s r = Inr ([([[1, 1]], 0), ([[2, 2]], 0)], dict_iadd ?s [[1, 2]] 1, r')"
    by blast
  have t: "dict_iadd ?s [[1, 2]] 1 = ?t" by (simp add: dict_iadd_def)
  have stop: "mate_loop [([[1, 1]], 0), ([[2, 2]], 0)] ?t r' = Inr (?t, r')"
    by (subst mate_loop.simps) (simp add: population_def)
  have "mate_loop ?s ?s r = mate_loop [([[1, 1]], 0), ([[2, 2]], 0)] ?t r'"
    by (subst mate_loop.simps) (simp add: population_def round t del: dict_set.simps dict_get.simps)
  with stop have 1: "Species_mate ?s r = Inr (?t, r')" by (simp add: Species_mate_eq)
  have 2: "population ?t = 3" by (simp add: population_def)
  have 3: "genome_frequencies ?t = Inr [([[1, 1]], 1 / 3), ([[2, 2]], 1 / 3), ([[1, 2]], 1 / 3)]"
    by (simp add: genome_frequencies_def truediv_def)
  have 4: "map_of [([[1, 1 :: int]], 1 / 3 :: real), ([[2, 2]], 1 / 3), ([[1, 2]], 1 / 3)]
             = map_of [([[1, 1]], 1 / 3), ([[1, 2]], 1 / 3), ([[2, 2]], 1 / 3)]"
    by (auto simp: fun_eq_iff)
  have 5: "allele_frequencies ?t 0 = Inr [(1, 1 / 2), (2, 1 / 2)]"
    by (simp add: allele_frequencies_def allele_counts_def getitem_def Genome_allele_count_def
        Gene_allele_count_def dict_iadd_def truediv_def)
  from 1 2 3 4 5 show ?thesis by blast
qed

theorem mate_two_genotypes_witness:
  "unit_floats \<lparr>floats = sconst (1 / 2), picks = sconst 1\<rparr>
   \<and> (\<exists>r'. Species_mate [([[1, 1]], 1), ([[2, 2]], 1)] \<lparr>floats = sconst (1 / 2), picks = sconst 1\<rparr>
             = Inr ([([[1, 1]], 1), ([[2, 2]], 1), ([[1, 2]], 1)], r'))"
proof -
  have u: "unit_floats \<lparr>floats = sconst (1 / 2), picks = sconst 1\<rparr>"
    by (simp add: unit_floats_def)
  from mate_two_genotypes [OF u] u show ?thesis by auto
qed

end
